theory Spec2Isabelle
  imports Complex_Main
begin

section \<open>Exceptions, log lines and observable effects\<close>

text \<open>
  The module \<^verbatim>\<open>uliweb/utils/workers.py\<close> supervises worker processes. Its functions
  are embedded here with every raise as a value and every side effect (a call of the unit
  of work, an alarm, a sleep, a log line, a fork, a kill) as an entry of a trace.

  \<open>py_exc\<close> lists the exceptions that occur. \<open>UserError\<close> stands for any exception class
  derived from \<^verbatim>\<open>Exception\<close> that the unit of work raises; \<open>SystemExit\<close> and
  \<open>KeyboardInterrupt\<close> derive from \<^verbatim>\<open>BaseException\<close> only, so that
  \<^verbatim>\<open>except Exception\<close> does not catch them.
\<close>

datatype py_exc =
    TimeoutException
  | UserError
  | OSError
  | TypeError
  | AttributeError
  | NoSuchProcess
  | SystemExit int
  | KeyboardInterrupt

fun is_Exception :: "py_exc \<Rightarrow> bool" where
  "is_Exception (SystemExit _) = False"
| "is_Exception KeyboardInterrupt = False"
| "is_Exception _ = True"

datatype signum = SIGINT | SIGTERM | SIGKILL

text \<open>
  A log line is kept as its kind and, where the line prints one, the deadline, the bound
  or the pid of the child; the name of the worker, the pid of the writer and the rest of
  the format are left out.
\<close>

datatype log_msg =
    Worker_creating
  | Worker_cancelled_by_signal
  | Worker_cancelled_by_timeout nat
  | Worker_cancelled_by_max_requests int
  | Worker_received_signal
  | No_workers_need_to_run
  | Daemon_starting
  | Not_existed_any_more int
  | Reaches_hard_memory_limit int
  | Reaches_soft_memory_limit int
  | Manager_caught py_exc
  | Manager_received_signal
  | Main_process_quit
  | Main_process_ctrl_c

datatype effect =
    CallRun
  | Alarm nat
  | Sleep nat
  | LogInfo log_msg
  | LogException py_exc
  | Waitpid int
  | Fork
  | Kill int signum

section \<open>The worker\<close>

datatype exit_tag = Signal | Timeout

record worker =
  max_requests :: "int option"
  soft_memory_limit :: rat
  hard_memory_limit :: rat
  timeout :: "nat option"
  check_point :: "nat option"
  name :: "string \<times> nat"
  is_exit :: "exit_tag option"
  count :: int

text \<open>
  \<^verbatim>\<open>Worker.__init__\<close>. The class attribute \<^verbatim>\<open>_id\<close> is passed in and returned
  incremented; the name \<^verbatim>\<open>"%s-%d" % ((name or 'Process'), self._id)\<close> is kept as the
  pair of its two parts. The defaults of the keyword arguments are 200 and 300 for the two
  memory limits and \<^verbatim>\<open>None\<close> for the rest.
\<close>

definition Worker_init ::
  "nat \<Rightarrow> int option \<Rightarrow> rat \<Rightarrow> rat \<Rightarrow> nat option \<Rightarrow> nat option \<Rightarrow> string option
     \<Rightarrow> worker \<times> nat" where
  "Worker_init class_id mr soft hard tmo cp nm =
     (\<lparr> max_requests = mr,
        soft_memory_limit = soft,
        hard_memory_limit = hard,
        timeout = tmo,
        check_point = cp,
        name = ((case nm of None \<Rightarrow> ''Process'' | Some s \<Rightarrow> if s = [] then ''Process'' else s),
                class_id),
        is_exit = None,
        count = 0 \<rparr>,
      class_id + 1)"

text \<open>Python truth of an optional number: \<^verbatim>\<open>None\<close> and 0 are false.\<close>

fun truthy :: "'a::zero option \<Rightarrow> bool" where
  "truthy None = False"
| "truthy (Some n) = (n \<noteq> 0)"

text \<open>
  The condition of the \<^verbatim>\<open>while\<close> of \<^verbatim>\<open>Worker._run\<close>:
  \<^verbatim>\<open>(not self.max_requests or (self.max_requests and self.count < self.max_requests))
  and not self.is_exit\<close>. Both exit tags are non-empty strings, hence true.
\<close>

definition loop_cond :: "worker \<Rightarrow> bool" where
  "loop_cond w =
     ((\<not> truthy (max_requests w) \<or>
       (truthy (max_requests w) \<and>
        (case max_requests w of Some n \<Rightarrow> count w < n | None \<Rightarrow> False)))
      \<and> is_exit w = None)"

subsection \<open>What one call of the unit of work does\<close>

text \<open>
  \<^verbatim>\<open>self.run()\<close> is supplied by the user, and signals arrive from outside, so one
  loop pass is driven by an \<open>event\<close>: how long the call would take with no deadline, how it
  ends, and whether an interrupt or terminate signal is delivered while the process is
  inside the call or inside the pause after it (the two places where the process waits).
  The handler installed by \<^verbatim>\<open>start\<close> sets \<^verbatim>\<open>is_exit = 'signal'\<close> and logs.
\<close>

datatype run_result = Returns bool | Raises py_exc

record event =
  duration :: nat
  result :: run_result
  sig_in_run :: bool
  sig_in_pause :: bool

text \<open>
  \<^verbatim>\<open>with Timeout(self.timeout): ret = self.run()\<close>: the alarm is armed only when
  \<^verbatim>\<open>self.timeout\<close> is true, and it fires when the call is still running after that
  many seconds; the handler then raises \<^verbatim>\<open>TimeoutException\<close> inside the call.
\<close>

definition overruns :: "worker \<Rightarrow> event \<Rightarrow> bool" where
  "overruns w ev =
     (case timeout w of None \<Rightarrow> False | Some t \<Rightarrow> t \<noteq> 0 \<and> t < duration ev)"

definition signal_handler :: "worker \<Rightarrow> worker \<times> effect list" where
  "signal_handler w = (w\<lparr>is_exit := Some Signal\<rparr>, [LogInfo Worker_received_signal])"

definition deliver :: "bool \<Rightarrow> worker \<Rightarrow> worker \<times> effect list" where
  "deliver arrives w = (if arrives then signal_handler w else (w, []))"

definition call_run :: "worker \<Rightarrow> event \<Rightarrow> run_result \<times> worker \<times> effect list" where
  "call_run w ev =
     (let (w1, fx) = deliver (sig_in_run ev) w in (result ev, w1, CallRun # fx))"

definition guarded_run :: "worker \<Rightarrow> event \<Rightarrow> run_result \<times> worker \<times> effect list" where
  "guarded_run w ev =
     (if truthy (timeout w)
      then (let (ret, w1, fx) = call_run w ev
            in (if overruns w ev then Raises TimeoutException else ret,
                w1, [Alarm (the (timeout w))] @ fx @ [Alarm 0]))
      else call_run w ev)"

subsection \<open>One pass of the loop body\<close>

datatype ctl = Continue | Return | Propagate py_exc

text \<open>
  The \<^verbatim>\<open>try\<close> statement of \<^verbatim>\<open>Worker._run\<close>. The increment and the pause are
  inside the \<^verbatim>\<open>try\<close>, after the call; the first handler sets the tag and returns, the
  second logs; anything that is not an \<^verbatim>\<open>Exception\<close> leaves the method.
\<close>

definition loop_body :: "worker \<Rightarrow> event \<Rightarrow> ctl \<times> worker \<times> effect list" where
  "loop_body w ev =
     (let (ret, w1, fx1) = guarded_run w ev
      in case ret of
           Returns r \<Rightarrow>
             (let w2 = (if r then w1\<lparr>count := count w1 + 1\<rparr> else w1)
              in if truthy (check_point w2)
                 then (let (w3, fx3) = deliver (sig_in_pause ev) w2
                       in (Continue, w3, fx1 @ [Sleep (the (check_point w2))] @ fx3))
                 else (Continue, w2, fx1))
         | Raises e \<Rightarrow>
             (if e = TimeoutException
              then (Return, w1\<lparr>is_exit := Some Timeout\<rparr>, fx1)
              else if is_Exception e
              then (Continue, w1, fx1 @ [LogException e])
              else (Propagate e, w1, fx1)))"

subsection \<open>The loop\<close>

text \<open>
  \<^verbatim>\<open>Worker._run\<close>. The loop may run forever, so it is driven by a finite script of
  events: \<open>Finished\<close> is a return of the method, \<open>Raised\<close> an exception leaving it, and
  \<open>Unfinished\<close> says that the script ended with the loop condition still true, that is,
  the method has not returned.
\<close>

datatype loop_result =
    Finished worker "effect list"
  | Raised py_exc worker "effect list"
  | Unfinished worker "effect list"

fun Worker__run :: "worker \<Rightarrow> event list \<Rightarrow> effect list \<Rightarrow> loop_result" where
  "Worker__run w [] tr = (if loop_cond w then Unfinished w tr else Finished w tr)"
| "Worker__run w (ev # evs) tr =
     (if loop_cond w
      then (case loop_body w ev of
              (Continue, w', fx) \<Rightarrow> Worker__run w' evs (tr @ fx)
            | (Return, w', fx) \<Rightarrow> Finished w' (tr @ fx)
            | (Propagate e, w', fx) \<Rightarrow> Raised e w' (tr @ fx))
      else Finished w tr)"

text \<open>
  \<^verbatim>\<open>Worker.after_run\<close>: the line that is logged. The third branch is taken for every
  value of \<^verbatim>\<open>is_exit\<close> other than the two tags; \<^verbatim>\<open>'%d' % None\<close> raises
  \<^verbatim>\<open>TypeError\<close>.
\<close>

definition Worker_after_run :: "worker \<Rightarrow> py_exc + log_msg" where
  "Worker_after_run w =
     (if is_exit w = Some Signal then Inr Worker_cancelled_by_signal
      else if is_exit w = Some Timeout
      then (case timeout w of None \<Rightarrow> Inl TypeError
                            | Some t \<Rightarrow> Inr (Worker_cancelled_by_timeout t))
      else (case max_requests w of None \<Rightarrow> Inl TypeError
                                 | Some n \<Rightarrow> Inr (Worker_cancelled_by_max_requests n)))"

text \<open>\<^verbatim>\<open>Worker.start\<close>: \<^verbatim>\<open>init\<close>, \<^verbatim>\<open>_run\<close>, \<^verbatim>\<open>after_run\<close>.\<close>

definition Worker_start :: "worker \<Rightarrow> event list \<Rightarrow> loop_result" where
  "Worker_start w evs =
     (case Worker__run w evs [LogInfo Worker_creating] of
        Finished w' tr \<Rightarrow>
          (case Worker_after_run w' of
             Inl e \<Rightarrow> Raised e w' tr
           | Inr m \<Rightarrow> Finished w' (tr @ [LogInfo m]))
      | Raised e w' tr \<Rightarrow> Raised e w' tr
      | Unfinished w' tr \<Rightarrow> Unfinished w' tr)"

definition calls :: "effect list \<Rightarrow> nat" where
  "calls tr = length (filter (\<lambda>x. x = CallRun) tr)"

text \<open>No signal is delivered during the pass that the event drives.\<close>

definition quiet :: "event \<Rightarrow> bool" where
  "quiet ev = (\<not> sig_in_run ev \<and> \<not> sig_in_pause ev)"

text \<open>
  The \<^verbatim>\<open>run\<close> of the base class: it sleeps one second and returns \<^verbatim>\<open>True\<close>.
\<close>

definition default_event :: event where
  "default_event =
     \<lparr> duration = 1, result = Returns True, sig_in_run = False, sig_in_pause = False \<rparr>"

subsection \<open>Reading the outcome of a run\<close>

fun res_worker :: "loop_result \<Rightarrow> worker" where
  "res_worker (Finished w tr) = w"
| "res_worker (Raised e w tr) = w"
| "res_worker (Unfinished w tr) = w"

fun res_trace :: "loop_result \<Rightarrow> effect list" where
  "res_trace (Finished w tr) = tr"
| "res_trace (Raised e w tr) = tr"
| "res_trace (Unfinished w tr) = tr"

fun is_LogException :: "effect \<Rightarrow> bool" where
  "is_LogException (LogException e) = True"
| "is_LogException _ = False"

fun is_Sleep :: "effect \<Rightarrow> bool" where
  "is_Sleep (Sleep n) = True"
| "is_Sleep _ = False"

definition errors_logged :: "effect list \<Rightarrow> nat" where
  "errors_logged tr = length (filter is_LogException tr)"

definition pauses :: "effect list \<Rightarrow> nat" where
  "pauses tr = length (filter is_Sleep tr)"

text \<open>
  An error of the unit of work: an exception that \<^verbatim>\<open>except Exception\<close> catches and
  that is not the \<^verbatim>\<open>TimeoutException\<close> of the first handler.
\<close>

fun is_error :: "run_result \<Rightarrow> bool" where
  "is_error (Returns r) = False"
| "is_error (Raises e) = (e \<noteq> TimeoutException \<and> is_Exception e)"

text \<open>The call ends in such an error, before the deadline if one is set.\<close>

definition failing :: "worker \<Rightarrow> event \<Rightarrow> bool" where
  "failing w ev = (is_error (result ev) \<and> \<not> overruns w ev)"

text \<open>A call that returns or ends in such an error.\<close>

fun benign :: "run_result \<Rightarrow> bool" where
  "benign (Returns r) = True"
| "benign (Raises e) = (e \<noteq> TimeoutException \<and> is_Exception e)"

text \<open>A pass with neither a deadline overrun nor a signal nor an exception that escapes.\<close>

definition harmless :: "worker \<Rightarrow> event \<Rightarrow> bool" where
  "harmless w ev = (benign (result ev) \<and> \<not> overruns w ev \<and> quiet ev)"

text \<open>The bound on the number of requests is set and the count has reached it.\<close>

definition bound_reached :: "worker \<Rightarrow> bool" where
  "bound_reached w =
     (case max_requests w of None \<Rightarrow> False | Some n \<Rightarrow> n \<noteq> 0 \<and> n \<le> count w)"

text \<open>
  The entry of a trace with which a call of the unit of work begins: the call itself, or
  the arming of the alarm before it.
\<close>

fun starts_call :: "effect \<Rightarrow> bool" where
  "starts_call CallRun = True"
| "starts_call (Alarm n) = (n \<noteq> 0)"
| "starts_call _ = False"

text \<open>Whatever follows a logged exception in a trace is the beginning of a call.\<close>

fun prompt_retry :: "effect list \<Rightarrow> bool" where
  "prompt_retry [] = True"
| "prompt_retry [x] = True"
| "prompt_retry (x # y # zs) =
     ((is_LogException x \<longrightarrow> starts_call y) \<and> prompt_retry (y # zs))"

text \<open>
  What the call of the unit of work itself adds to the trace in a pass: the call, inside
  the arming and disarming of the alarm when a deadline is set, with the line of the
  signal handler if a signal arrives during the call.
\<close>

definition call_effects :: "worker \<Rightarrow> event \<Rightarrow> effect list" where
  "call_effects w ev = snd (snd (guarded_run w ev))"

definition failing_event :: event where
  "failing_event = default_event\<lparr>result := Raises UserError\<rparr>"

definition pausing_worker :: worker where
  "pausing_worker = fst (Worker_init 1 None 200 300 None (Some 3) None)"

section \<open>The operating system, as the module uses it\<close>

text \<open>
  The process table holds, for each pid, a child of the manager that runs (with its
  resident set size in bytes), a child that has exited and has not been waited for (a
  zombie), or a process that is not a child of the manager. The four calls that the module
  makes are those of \<^verbatim>\<open>os\<close> and \<^verbatim>\<open>psutil\<close>:
  \<^item> \<^verbatim>\<open>psutil.pid_exists(pid)\<close> is true of every pid in the table, a zombie included;
  \<^item> \<^verbatim>\<open>os.waitpid(pid, os.WNOHANG)\<close> returns \<^verbatim>\<open>(0, 0)\<close> for a child that runs,
    removes a zombie from the table and returns its pid, and raises \<^verbatim>\<open>OSError\<close>
    (\<^verbatim>\<open>ECHILD\<close>) for a pid that is not a child of the caller;
  \<^item> \<^verbatim>\<open>psutil.Process(pid).memory_info().rss\<close> raises \<^verbatim>\<open>NoSuchProcess\<close> for a
    pid that is not in the table;
  \<^item> \<^verbatim>\<open>os.kill(pid, sig)\<close>, called for a pid in the table: \<^verbatim>\<open>SIGKILL\<close> ends a
    process, which leaves a child as a zombie; \<^verbatim>\<open>SIGTERM\<close> is handled by the worker's
    handler and changes nothing in the table.
\<close>

datatype proc = Running nat | Zombie | Foreign nat

type_synonym os_state = "int \<rightharpoonup> proc"

definition pid_exists :: "os_state \<Rightarrow> int \<Rightarrow> bool" where
  "pid_exists os pid = (os pid \<noteq> None)"

definition waitpid_nohang :: "os_state \<Rightarrow> int \<Rightarrow> py_exc + (int \<times> os_state)" where
  "waitpid_nohang os pid =
     (case os pid of
        Some (Running r) \<Rightarrow> Inr (0, os)
      | Some Zombie \<Rightarrow> Inr (pid, os(pid := None))
      | Some (Foreign r) \<Rightarrow> Inl OSError
      | None \<Rightarrow> Inl OSError)"

definition memory_info_rss :: "os_state \<Rightarrow> int \<Rightarrow> py_exc + nat" where
  "memory_info_rss os pid =
     (case os pid of
        Some (Running r) \<Rightarrow> Inr r
      | Some Zombie \<Rightarrow> Inr 0
      | Some (Foreign r) \<Rightarrow> Inr r
      | None \<Rightarrow> Inl NoSuchProcess)"

definition os_kill :: "os_state \<Rightarrow> int \<Rightarrow> signum \<Rightarrow> os_state" where
  "os_kill os pid sig =
     (case os pid of
        Some (Running r) \<Rightarrow> (if sig = SIGKILL then os(pid \<mapsto> Zombie) else os)
      | Some (Foreign r) \<Rightarrow> (if sig = SIGKILL then os(pid := None) else os)
      | _ \<Rightarrow> os)"

text \<open>
  \<^verbatim>\<open>os.fork()\<close> is decided by the machine: it raises \<^verbatim>\<open>OSError\<close>, or returns the
  pid of the new child in the parent, or returns 0 in the child, whose worker then meets
  the events of a script.
\<close>

datatype fork_outcome = ForkFails | InParent int nat | InChild "event list"

definition os_fork :: "fork_outcome \<Rightarrow> os_state \<Rightarrow> py_exc + (int \<times> os_state)" where
  "os_fork fo os =
     (case fo of
        ForkFails \<Rightarrow> Inl OSError
      | InParent pid rss \<Rightarrow> Inr (pid, os(pid \<mapsto> Running rss))
      | InChild evs \<Rightarrow> Inr (0, os))"

section \<open>Memory of a child and the two limits\<close>

text \<open>
  \<^verbatim>\<open>get_memory\<close>. The quotient \<^verbatim>\<open>rss / float(1024*1024)\<close> is a division by a power
  of two, which is exact in binary floating point for any size below \<open>2^53\<close> bytes, so the
  result is kept as a rational number.
\<close>

definition MB :: "nat \<Rightarrow> rat" where
  "MB rss = of_nat rss / of_nat (1024 * 1024)"

definition get_memory :: "os_state \<Rightarrow> int \<Rightarrow> (py_exc + rat) \<times> os_state \<times> effect list" where
  "get_memory os pid =
     (case waitpid_nohang os pid of
        Inl e \<Rightarrow> (Inl e, os, [Waitpid pid])
      | Inr (p, os') \<Rightarrow>
          if p = 0
          then (case memory_info_rss os' pid of
                  Inl e \<Rightarrow> (Inl e, os', [Waitpid pid])
                | Inr rss \<Rightarrow> (Inr (MB rss), os', [Waitpid pid]))
          else (Inr 0, os', [Waitpid pid]))"

definition reached_soft_memory_limit :: "worker \<Rightarrow> rat \<Rightarrow> bool" where
  "reached_soft_memory_limit w mem = (if mem \<ge> soft_memory_limit w then True else False)"

definition reached_hard_memory_limit :: "worker \<Rightarrow> rat \<Rightarrow> bool" where
  "reached_hard_memory_limit w mem = (if mem \<ge> hard_memory_limit w then True else False)"

section \<open>The manager\<close>

datatype logger = Logger string

definition module_logger :: logger where
  "module_logger = Logger ''uliweb.utils.workers''"

text \<open>
  The attributes that \<^verbatim>\<open>Manager.__init__\<close> sets and that stay as they are. The flag
  \<^verbatim>\<open>self.is_exit\<close>, the one attribute that changes, is the field \<open>exiting\<close> of the
  state below, with the local \<^verbatim>\<open>pids\<close> of \<^verbatim>\<open>run\<close>, the process table and the trace.
\<close>

record manager =
  workers :: "worker list"
  logger :: logger
  m_check_point :: nat
  title :: string
  wait_time :: nat

record mstate =
  exiting :: bool
  pids :: "nat \<rightharpoonup> int"
  procs :: os_state
  trace :: "effect list"

text \<open>
  \<^verbatim>\<open>Manager.__init__\<close>. With no workers it calls \<^verbatim>\<open>log.info\<close> on the argument as
  given, which is \<^verbatim>\<open>None\<close> by default, and then \<^verbatim>\<open>sys.exit(0)\<close>.
\<close>

definition Manager_init ::
  "worker list \<Rightarrow> logger option \<Rightarrow> nat \<Rightarrow> string \<Rightarrow> nat \<Rightarrow> (py_exc + manager) \<times> effect list" where
  "Manager_init ws lg cp ttl wt =
     (if ws = []
      then (case lg of
              None \<Rightarrow> (Inl AttributeError, [])
            | Some l \<Rightarrow> (Inl (SystemExit 0), [LogInfo No_workers_need_to_run]))
      else (Inr \<lparr> workers = ws,
                 logger = (case lg of None \<Rightarrow> module_logger | Some l \<Rightarrow> l),
                 m_check_point = cp,
                 title = ttl,
                 wait_time = wt \<rparr>, []))"

text \<open>\<^verbatim>\<open>Manager.kill_child\<close>.\<close>

definition kill_child :: "os_state \<Rightarrow> int \<Rightarrow> signum \<Rightarrow> os_state \<times> effect list" where
  "kill_child os pid sig =
     (if pid_exists os pid then (os_kill os pid sig, [Kill pid sig]) else (os, []))"

datatype mresult =
    Done mstate
  | Fail py_exc mstate
  | Stuck mstate

subsection \<open>The body of the \<^verbatim>\<open>for\<close> loop\<close>

text \<open>
  The first part decides whether the slot gets a new process: \<^verbatim>\<open>pids.get(i)\<close> is
  \<^verbatim>\<open>None\<close> or 0, or \<^verbatim>\<open>psutil.pid_exists\<close> denies the pid. It reads the table and
  does not change it.
\<close>

definition needs_create :: "mstate \<Rightarrow> nat \<Rightarrow> bool \<times> effect list" where
  "needs_create st i =
     (case pids st i of
        None \<Rightarrow> (True, [])
      | Some pid \<Rightarrow>
          if pid = 0 then (True, [])
          else if \<not> pid_exists (procs st) pid
          then (True, [LogInfo (Not_existed_any_more pid)])
          else (False, []))"

text \<open>
  The branch \<^verbatim>\<open>if create:\<close>. The call of \<^verbatim>\<open>os.fork\<close> is not inside a
  \<^verbatim>\<open>try\<close>. In the child, \<^verbatim>\<open>worker.start()\<close> runs inside
  \<^verbatim>\<open>try ... except Exception ... finally: sys.exit(0)\<close>, so the child leaves with
  \<^verbatim>\<open>SystemExit\<close> whatever \<open>start\<close> did, once \<open>start\<close> is over.
\<close>

definition spawn :: "fork_outcome \<Rightarrow> worker \<Rightarrow> nat \<Rightarrow> mstate \<Rightarrow> mresult" where
  "spawn fo w i st =
     (case os_fork fo (procs st) of
        Inl e \<Rightarrow> Fail e (st\<lparr>trace := trace st @ [Fork]\<rparr>)
      | Inr (pid, os') \<Rightarrow>
          if pid \<noteq> 0
          then Done (st\<lparr>pids := (pids st)(i \<mapsto> pid), procs := os',
                        trace := trace st @ [Fork]\<rparr>)
          else (case Worker_start w (case fo of InChild evs \<Rightarrow> evs | _ \<Rightarrow> []) of
                  Finished w' tr \<Rightarrow>
                    Fail (SystemExit 0) (st\<lparr>procs := os', trace := trace st @ [Fork] @ tr\<rparr>)
                | Raised e w' tr \<Rightarrow>
                    Fail (SystemExit 0)
                      (st\<lparr>procs := os',
                          trace := trace st @ [Fork] @ tr
                                     @ (if is_Exception e then [LogException e] else [])\<rparr>)
                | Unfinished w' tr \<Rightarrow>
                    Stuck (st\<lparr>procs := os', trace := trace st @ [Fork] @ tr\<rparr>)))"

text \<open>
  The branch \<^verbatim>\<open>else:\<close>, all of it inside \<^verbatim>\<open>try ... except Exception\<close>. The hard
  limit is tested first; its line is logged before the kill, the line of the soft limit
  after it.
\<close>

definition inspect :: "worker \<Rightarrow> int \<Rightarrow> mstate \<Rightarrow> mstate" where
  "inspect w pid st =
     (case get_memory (procs st) pid of
        (Inl e, os', fx) \<Rightarrow>
          st\<lparr>procs := os', trace := trace st @ fx @ [LogInfo (Manager_caught e)]\<rparr>
      | (Inr mem, os', fx) \<Rightarrow>
          if reached_hard_memory_limit w mem
          then (let (os'', fk) = kill_child os' pid SIGKILL
                in st\<lparr>procs := os'',
                      trace := trace st @ fx @ [LogInfo (Reaches_hard_memory_limit pid)] @ fk\<rparr>)
          else if reached_soft_memory_limit w mem
          then (let (os'', fk) = kill_child os' pid SIGTERM
                in st\<lparr>procs := os'',
                      trace := trace st @ fx @ fk @ [LogInfo (Reaches_soft_memory_limit pid)]\<rparr>)
          else st\<lparr>procs := os', trace := trace st @ fx\<rparr>)"

definition check_worker :: "fork_outcome \<Rightarrow> nat \<Rightarrow> worker \<Rightarrow> mstate \<Rightarrow> mresult" where
  "check_worker fo i w st =
     (let (create, fx) = needs_create st i;
          st1 = st\<lparr>trace := trace st @ fx\<rparr>
      in if create then spawn fo w i st1
         else Done (inspect w (the (pids st i)) st1))"

text \<open>\<^verbatim>\<open>for i, worker in enumerate(self.workers)\<close>, from index \<open>i\<close> on.\<close>

fun for_workers :: "(nat \<Rightarrow> fork_outcome) \<Rightarrow> nat \<Rightarrow> worker list \<Rightarrow> mstate \<Rightarrow> mresult" where
  "for_workers f i [] st = Done st"
| "for_workers f i (w # ws) st =
     (case check_worker (f i) i w st of
        Done st' \<Rightarrow> for_workers f (Suc i) ws st'
      | Fail e st' \<Rightarrow> Fail e st'
      | Stuck st' \<Rightarrow> Stuck st')"

subsection \<open>The polling loop\<close>

text \<open>
  What the world does during one pass: the outcome of a fork for each slot, should the
  manager fork for it; what happens to the processes while the manager sleeps; whether a
  signal reaches the manager's handler, which sets \<^verbatim>\<open>is_exit\<close>; and whether
  \<^verbatim>\<open>KeyboardInterrupt\<close> is raised in the sleep (which takes \<^verbatim>\<open>run\<close> called
  without the handlers of \<^verbatim>\<open>start\<close>).
\<close>

datatype os_event = Exits int | Rss int nat | Reused int nat

fun happen :: "os_event \<Rightarrow> os_state \<Rightarrow> os_state" where
  "happen (Exits pid) os =
     (case os pid of Some (Running r) \<Rightarrow> os(pid \<mapsto> Zombie)
                   | Some (Foreign r) \<Rightarrow> os(pid := None)
                   | _ \<Rightarrow> os)"
| "happen (Rss pid r) os =
     (case os pid of Some (Running r') \<Rightarrow> os(pid \<mapsto> Running r) | _ \<Rightarrow> os)"
| "happen (Reused pid r) os =
     (case os pid of None \<Rightarrow> os(pid \<mapsto> Foreign r) | _ \<Rightarrow> os)"

record pass_env =
  forks :: "nat \<Rightarrow> fork_outcome"
  happens :: "os_event list"
  signalled :: bool
  interrupted :: bool

text \<open>
  After the loop: \<^verbatim>\<open>kill_child(pid)\<close> with the default \<^verbatim>\<open>SIGTERM\<close> for every
  recorded pid, the wait, and the last line.
\<close>

fun kill_all :: "nat list \<Rightarrow> mstate \<Rightarrow> mstate" where
  "kill_all [] st = st"
| "kill_all (i # is) st =
     (case pids st i of
        None \<Rightarrow> kill_all is st
      | Some pid \<Rightarrow>
          (let (os', fk) = kill_child (procs st) pid SIGTERM
           in kill_all is (st\<lparr>procs := os', trace := trace st @ fk\<rparr>)))"

definition shutdown :: "manager \<Rightarrow> mstate \<Rightarrow> mstate" where
  "shutdown m st =
     (let st1 = kill_all [0 ..< length (workers m)] st
      in st1\<lparr>trace := trace st1 @ [Sleep (wait_time m), LogInfo Main_process_quit]\<rparr>)"

text \<open>
  \<^verbatim>\<open>Manager.run\<close>, driven by a finite script of passes; \<open>Stuck\<close> says that the script
  has ended and the loop has not. The only handler of the outer \<^verbatim>\<open>try\<close> is the one
  for \<^verbatim>\<open>KeyboardInterrupt\<close>.
\<close>

fun Manager_loop :: "manager \<Rightarrow> pass_env list \<Rightarrow> mstate \<Rightarrow> mresult" where
  "Manager_loop m [] st = (if \<not> exiting st then Stuck st else Done (shutdown m st))"
| "Manager_loop m (p # ps) st =
     (if \<not> exiting st
      then (case for_workers (forks p) 0 (workers m) st of
              Done st1 \<Rightarrow>
                (let st2 = st1\<lparr>procs := fold happen (happens p) (procs st1),
                               trace := trace st1 @ [Sleep (m_check_point m)]\<rparr>
                 in if interrupted p
                    then Done (st2\<lparr>trace := trace st2 @ [LogInfo Main_process_ctrl_c]\<rparr>)
                    else if signalled p
                    then Manager_loop m ps
                           (st2\<lparr>exiting := True,
                                trace := trace st2 @ [LogInfo Manager_received_signal]\<rparr>)
                    else Manager_loop m ps st2)
            | Fail e st1 \<Rightarrow>
                (if e = KeyboardInterrupt
                 then Done (st1\<lparr>trace := trace st1 @ [LogInfo Main_process_ctrl_c]\<rparr>)
                 else Fail e st1)
            | Stuck st1 \<Rightarrow> Stuck st1)
      else Done (shutdown m st))"

definition Manager_run :: "manager \<Rightarrow> os_state \<Rightarrow> effect list \<Rightarrow> pass_env list \<Rightarrow> mresult" where
  "Manager_run m os tr ps =
     Manager_loop m ps \<lparr> exiting = False, pids = Map.empty, procs = os, trace = tr \<rparr>"

text \<open>\<^verbatim>\<open>Manager.start\<close>: \<^verbatim>\<open>init\<close> logs the banner, \<^verbatim>\<open>after_run\<close> does nothing.\<close>

definition Manager_start :: "manager \<Rightarrow> os_state \<Rightarrow> effect list \<Rightarrow> pass_env list \<Rightarrow> mresult" where
  "Manager_start m os tr ps = Manager_run m os (tr @ [LogInfo Daemon_starting]) ps"

text \<open>
  Construction followed by \<^verbatim>\<open>start\<close>, as the module does when run as a script:
  \<^verbatim>\<open>manager = Manager(workers, ...); manager.start()\<close>.
\<close>

definition launch ::
  "worker list \<Rightarrow> logger option \<Rightarrow> nat \<Rightarrow> string \<Rightarrow> nat \<Rightarrow> os_state \<Rightarrow> pass_env list
     \<Rightarrow> mresult" where
  "launch ws lg cp ttl wt os ps =
     (case Manager_init ws lg cp ttl wt of
        (Inl e, fx) \<Rightarrow> Fail e \<lparr> exiting = False, pids = Map.empty, procs = os, trace = fx \<rparr>
      | (Inr m, fx) \<Rightarrow> Manager_start m os fx ps)"

subsection \<open>States and passes to run the manager on\<close>

definition default_worker :: worker where
  "default_worker = fst (Worker_init 1 (Some 2) 200 300 None None None)"

text \<open>Slot 0 holds pid 7; the child has exited and has not been waited for.\<close>

definition zombie_state :: mstate where
  "zombie_state =
     \<lparr> exiting = False, pids = [0 \<mapsto> 7], procs = [7 \<mapsto> Zombie], trace = [] \<rparr>"

definition zombie_expected :: mstate where
  "zombie_expected = zombie_state\<lparr>procs := Map.empty, trace := [Waitpid 7]\<rparr>"

text \<open>Slot 0 holds pid 7; the child runs with the given resident set size.\<close>

definition live_state :: "nat \<Rightarrow> mstate" where
  "live_state rss =
     \<lparr> exiting = False, pids = [0 \<mapsto> 7], procs = [7 \<mapsto> Running rss], trace = [] \<rparr>"


text \<open>A pass in which every fork is refused, and one in which every fork succeeds.\<close>

definition no_fork_pass :: pass_env where
  "no_fork_pass =
     \<lparr> forks = (\<lambda>i. ForkFails), happens = [], signalled = False, interrupted = False \<rparr>"

definition fork_pass :: pass_env where
  "fork_pass =
     \<lparr> forks = (\<lambda>i. InParent (100 + int i) 0), happens = [], signalled = False,
       interrupted = False \<rparr>"

text \<open>
  The lines that the manager logs for a child whose memory reads as 0: none, unless a
  limit is 0 or less.
\<close>

definition zombie_lines :: "worker \<Rightarrow> int \<Rightarrow> effect list" where
  "zombie_lines w pid =
     (if 0 \<ge> hard_memory_limit w then [LogInfo (Reaches_hard_memory_limit pid)]
      else if 0 \<ge> soft_memory_limit w then [LogInfo (Reaches_soft_memory_limit pid)]
      else [])"

section \<open>Properties of the worker loop\<close>

lemma calls_append: "calls (a @ b) = calls a + calls b"
  by (simp add: calls_def)

lemma calls_Nil [simp]: "calls [] = 0"
  by (simp add: calls_def)

lemma calls_Cons [simp]: "calls (x # xs) = (if x = CallRun then 1 else 0) + calls xs"
  by (simp add: calls_def)

lemma deliver_count [simp]: "count (fst (deliver b w)) = count w"
  by (simp add: deliver_def signal_handler_def)

lemma deliver_timeout [simp]: "timeout (fst (deliver b w)) = timeout w"
  by (simp add: deliver_def signal_handler_def)

lemma calls_deliver [simp]: "calls (snd (deliver b w)) = 0"
  by (simp add: deliver_def signal_handler_def)

lemma overruns_count_upd [simp]: "overruns (w\<lparr>count := c\<rparr>) ev = overruns w ev"
  by (simp add: overruns_def)

subsection \<open>Reaching the bound\<close>

lemma loop_body_good:
  assumes "result ev = Returns True" "\<not> overruns w ev" "quiet ev"
  shows "\<exists>fx. loop_body w ev = (Continue, w\<lparr>count := count w + 1\<rparr>, fx) \<and> calls fx = 1"
  using assms
  by (auto simp: loop_body_def guarded_run_def call_run_def deliver_def quiet_def Let_def
           split: prod.splits)

lemma run_to_max:
  assumes "max_requests w = Some N" "is_exit w = None" "count w \<le> N" "0 < N"
    and "nat (N - count w) \<le> length evs"
    and "\<forall>ev \<in> set (take (nat (N - count w)) evs).
           result ev = Returns True \<and> \<not> overruns w ev \<and> quiet ev"
  shows "\<exists>tr'. Worker__run w evs tr = Finished (w\<lparr>count := N\<rparr>) tr'
           \<and> calls tr' = calls tr + nat (N - count w)"
  using assms
proof (induction evs arbitrary: w tr)
  case Nil
  then have "count w = N" by simp
  with Nil show ?case by (auto simp: loop_cond_def)
next
  case (Cons ev evs)
  show ?case
  proof (cases "count w = N")
    case True
    with Cons.prems show ?thesis by (auto simp: loop_cond_def)
  next
    case False
    with Cons.prems have lt: "count w < N" by simp
    from lt Cons.prems have cond: "loop_cond w" by (auto simp: loop_cond_def)
    from lt have nz: "nat (N - count w) = Suc (nat (N - (count w + 1)))" by simp
    with Cons.prems have ev: "result ev = Returns True" "\<not> overruns w ev" "quiet ev"
      by auto
    from loop_body_good[OF ev] obtain fx where
      fx: "loop_body w ev = (Continue, w\<lparr>count := count w + 1\<rparr>, fx)" "calls fx = 1"
      by blast
    let ?w = "w\<lparr>count := count w + 1\<rparr>"
    have "\<exists>tr'. Worker__run ?w evs (tr @ fx) = Finished (?w\<lparr>count := N\<rparr>) tr' \<and>
            calls tr' = calls (tr @ fx) + nat (N - count ?w)"
    proof (rule Cons.IH)
      show "max_requests ?w = Some N" using Cons.prems by simp
      show "is_exit ?w = None" using Cons.prems by simp
      show "count ?w \<le> N" using lt by simp
      show "0 < N" by fact
      show "nat (N - count ?w) \<le> length evs" using Cons.prems(5) nz by simp
      show "\<forall>ev\<in>set (take (nat (N - count ?w)) evs).
              result ev = Returns True \<and> \<not> overruns ?w ev \<and> quiet ev"
        using Cons.prems(6) nz by simp
    qed
    then obtain tr' where
      "Worker__run ?w evs (tr @ fx) = Finished (w\<lparr>count := N\<rparr>) tr'"
      "calls tr' = calls (tr @ fx) + nat (N - count ?w)" by auto
    with cond fx nz show ?thesis by (simp add: calls_append)
  qed
qed

text \<open>
  C1, as the code has it. A worker with \<open>max_requests = N\<close>, \<open>N > 0\<close>, started fresh,
  whose unit of work returns a true value on every call, within the deadline when one is
  set, and to which no signal is delivered: \<open>start\<close> returns after exactly \<open>N\<close> calls of
  the unit of work with \<open>count = N\<close>. Nothing is recorded in \<open>is_exit\<close>, which is still
  \<^verbatim>\<open>None\<close>: the code assigns only \<^verbatim>\<open>'timeout'\<close> and \<^verbatim>\<open>'signal'\<close> to it. The
  outcome shows in the log alone, where \<open>after_run\<close> takes its last branch and writes, as
  the last line, that the bound on the number of requests was reached.
\<close>

theorem C1_start_reaches_max_requests:
  assumes "max_requests w = Some N" and "0 < N"
    and "count w = 0" and "is_exit w = None"
    and "nat N \<le> length evs"
    and "\<forall>ev \<in> set evs. result ev = Returns True \<and> \<not> overruns w ev \<and> quiet ev"
  shows "\<exists>w' tr. Worker_start w evs = Finished w' tr \<and> count w' = N \<and> calls tr = nat N
            \<and> is_exit w' = None
            \<and> Worker_after_run w' = Inr (Worker_cancelled_by_max_requests N)
            \<and> last tr = LogInfo (Worker_cancelled_by_max_requests N)"
proof -
  have "\<forall>ev \<in> set (take (nat (N - count w)) evs).
          result ev = Returns True \<and> \<not> overruns w ev \<and> quiet ev"
    using assms(6) by (meson in_set_takeD)
  with run_to_max[of w N evs "[LogInfo Worker_creating]"] assms
  obtain tr' where
    r: "Worker__run w evs [LogInfo Worker_creating] = Finished (w\<lparr>count := N\<rparr>) tr'"
    and c: "calls tr' = calls [LogInfo Worker_creating] + nat (N - count w)"
    by auto
  have a: "Worker_after_run (w\<lparr>count := N\<rparr>) = Inr (Worker_cancelled_by_max_requests N)"
    using assms by (simp add: Worker_after_run_def)
  have "Worker_start w evs =
          Finished (w\<lparr>count := N\<rparr>) (tr' @ [LogInfo (Worker_cancelled_by_max_requests N)])"
    using r a by (simp add: Worker_start_def)
  moreover have "calls (tr' @ [LogInfo (Worker_cancelled_by_max_requests N)]) = nat N"
    using c assms by (simp add: calls_append)
  ultimately show ?thesis using a assms by auto
qed

theorem C1_witness:
  "let w = fst (Worker_init 1 (Some 2) 200 300 None None None);
       evs = [default_event, default_event]
   in max_requests w = Some 2 \<and> count w = 0 \<and> is_exit w = None \<and> nat 2 \<le> length evs
      \<and> (\<forall>ev \<in> set evs. result ev = Returns True \<and> \<not> overruns w ev \<and> quiet ev)
      \<and> (\<exists>w' tr. Worker_start w evs = Finished w' tr \<and> count w' = 2 \<and> calls tr = 2
            \<and> is_exit w' = None
            \<and> Worker_after_run w' = Inr (Worker_cancelled_by_max_requests 2)
            \<and> last tr = LogInfo (Worker_cancelled_by_max_requests 2))"
  using C1_start_reaches_max_requests
          [of "fst (Worker_init 1 (Some 2) 200 300 None None None)" 2
              "[default_event, default_event]"]
  by (simp add: Worker_init_def default_event_def overruns_def quiet_def)

text \<open>
  C1 as stated fails: after two calls with \<open>max_requests = 2\<close> the loop has ended on the
  bound, and \<open>is_exit\<close> records no outcome at all.
\<close>

theorem C1_counterexample:
  "Worker_start default_worker [default_event, default_event]
     = Finished (default_worker\<lparr>count := 2\<rparr>)
         [LogInfo Worker_creating, CallRun, CallRun,
          LogInfo (Worker_cancelled_by_max_requests 2)]
   \<and> is_exit (default_worker\<lparr>count := 2\<rparr>) = None"
  by (simp add: Worker_start_def loop_cond_def loop_body_def guarded_run_def call_run_def
                deliver_def Worker_after_run_def default_worker_def Worker_init_def
                default_event_def)

subsection \<open>The deadline\<close>

lemma loop_body_overrun:
  assumes "timeout w = Some T" "T \<noteq> 0" "T < duration ev"
  shows "loop_body w ev =
           (Return, (fst (deliver (sig_in_run ev) w))\<lparr>is_exit := Some Timeout\<rparr>,
            [Alarm T, CallRun] @ snd (deliver (sig_in_run ev) w) @ [Alarm 0])"
  using assms
  by (simp add: loop_body_def guarded_run_def call_run_def overruns_def Let_def
           split: prod.splits)

text \<open>
  C4. A worker with a deadline of \<open>T\<close> seconds, \<open>T > 0\<close>, whose loop is entered with
  \<open>count = 0\<close> and whose first call of the unit of work runs longer than \<open>T\<close> seconds:
  \<open>start\<close> returns (the exception does not leave the loop) after that single call, with
  \<open>is_exit = 'timeout'\<close> and \<open>count\<close> still 0, and \<open>after_run\<close> logs the timeout.
\<close>

theorem C4_first_call_overruns_deadline:
  assumes "timeout w = Some T" and "T \<noteq> 0" and "T < duration ev"
    and "count w = 0" and "loop_cond w"
  shows "\<exists>w' tr. Worker_start w (ev # evs) = Finished w' tr
           \<and> is_exit w' = Some Timeout \<and> count w' = 0 \<and> calls tr = 1
           \<and> last tr = LogInfo (Worker_cancelled_by_timeout T)"
proof -
  let ?w = "(fst (deliver (sig_in_run ev) w))\<lparr>is_exit := Some Timeout\<rparr>"
  let ?tr = "[LogInfo Worker_creating] @ [Alarm T, CallRun]
               @ snd (deliver (sig_in_run ev) w) @ [Alarm 0]"
  have r: "Worker__run w (ev # evs) [LogInfo Worker_creating] = Finished ?w ?tr"
    using assms(5) loop_body_overrun[OF assms(1-3)] by simp
  have a: "Worker_after_run ?w = Inr (Worker_cancelled_by_timeout T)"
    using assms(1) by (simp add: Worker_after_run_def)
  have s: "Worker_start w (ev # evs) =
             Finished ?w (?tr @ [LogInfo (Worker_cancelled_by_timeout T)])"
    using r a by (simp add: Worker_start_def)
  have c: "calls (?tr @ [LogInfo (Worker_cancelled_by_timeout T)]) = 1"
    by (simp add: calls_append)
  show ?thesis using s c assms(4) by simp
qed

theorem C4_witness:
  "let w = fst (Worker_init 1 (Some 2) 200 300 (Some 5) None None);
       ev = default_event\<lparr>duration := 6\<rparr>
   in timeout w = Some 5 \<and> (5::nat) \<noteq> 0 \<and> 5 < duration ev \<and> count w = 0 \<and> loop_cond w
      \<and> (\<exists>w' tr. Worker_start w [ev] = Finished w' tr
           \<and> is_exit w' = Some Timeout \<and> count w' = 0 \<and> calls tr = 1
           \<and> last tr = LogInfo (Worker_cancelled_by_timeout 5))"
  using C4_first_call_overruns_deadline
          [of "fst (Worker_init 1 (Some 2) 200 300 (Some 5) None None)" 5
              "default_event\<lparr>duration := 6\<rparr>" "[]"]
  by (simp add: Worker_init_def default_event_def loop_cond_def)

subsection \<open>What every run of the loop keeps\<close>

lemma errors_append: "errors_logged (a @ b) = errors_logged a + errors_logged b"
  by (simp add: errors_logged_def)

lemma errors_Nil [simp]: "errors_logged [] = 0"
  by (simp add: errors_logged_def)

lemma errors_Cons [simp]:
  "errors_logged (x # xs) = (if is_LogException x then 1 else 0) + errors_logged xs"
  by (simp add: errors_logged_def)

lemma pauses_Nil [simp]: "pauses [] = 0"
  by (simp add: pauses_def)

lemma pauses_Cons [simp]: "pauses (x # xs) = (if is_Sleep x then 1 else 0) + pauses xs"
  by (simp add: pauses_def)

lemma pauses_append: "pauses (a @ b) = pauses a + pauses b"
  by (simp add: pauses_def)

lemma loop_body_config:
  assumes "loop_body w ev = (k, w', fx)"
  shows "max_requests w' = max_requests w \<and> timeout w' = timeout w \<and> check_point w' = check_point w"
  using assms
  by (auto simp: loop_body_def guarded_run_def call_run_def deliver_def signal_handler_def Let_def
           split: prod.splits run_result.splits if_splits)

lemma loop_body_return:
  assumes "loop_body w ev = (Return, w', fx)"
  shows "is_exit w' = Some Timeout"
  using assms
  by (auto simp: loop_body_def guarded_run_def call_run_def deliver_def signal_handler_def Let_def
           split: prod.splits run_result.splits if_splits)

lemma finished_not_cond:
  "Worker__run w evs tr = Finished w' t \<Longrightarrow> \<not> loop_cond w'"
proof (induction evs arbitrary: w tr)
  case Nil
  then show ?case by (auto split: if_splits)
next
  case (Cons ev evs)
  show ?case
  proof (cases "loop_cond w")
    case False
    with Cons.prems show ?thesis by simp
  next
    case True
    obtain k w1 fx where b: "loop_body w ev = (k, w1, fx)" by (cases "loop_body w ev") auto
    show ?thesis
    proof (cases k)
      case Continue
      with True b Cons.prems have "Worker__run w1 evs (tr @ fx) = Finished w' t" by simp
      then show ?thesis by (rule Cons.IH)
    next
      case Return
      with True b Cons.prems have "w' = w1" by simp
      with loop_body_return[of w ev w1 fx] b Return show ?thesis by (simp add: loop_cond_def)
    next
      case (Propagate e)
      with True b Cons.prems show ?thesis by simp
    qed
  qed
qed

lemma run_config:
  "max_requests (res_worker (Worker__run w evs tr)) = max_requests w"
proof (induction evs arbitrary: w tr)
  case Nil
  show ?case by simp
next
  case (Cons ev evs)
  obtain k w1 fx where b: "loop_body w ev = (k, w1, fx)" by (cases "loop_body w ev") auto
  from loop_body_config[OF b] have m: "max_requests w1 = max_requests w" by simp
  show ?case
  proof (cases "loop_cond w")
    case False
    then show ?thesis by simp
  next
    case True
    show ?thesis
    proof (cases k)
      case Continue
      with True b have "Worker__run w (ev # evs) tr = Worker__run w1 evs (tr @ fx)" by simp
      with Cons.IH[of w1 "tr @ fx"] m show ?thesis by simp
    next
      case Return
      with True b m show ?thesis by simp
    next
      case (Propagate e)
      with True b m show ?thesis by simp
    qed
  qed
qed

lemma guarded_run_shape:
  "\<exists>fx. guarded_run w ev =
          (if overruns w ev then Raises TimeoutException else result ev,
           fst (deliver (sig_in_run ev) w), fx)
        \<and> calls fx = 1 \<and> errors_logged fx = 0 \<and> pauses fx = 0"
  by (auto simp: guarded_run_def call_run_def deliver_def signal_handler_def overruns_def
                 calls_append errors_append pauses_append
           split: prod.splits option.splits)

subsection \<open>A unit of work that fails on every call\<close>

lemma loop_body_failing:
  assumes "failing w ev"
  shows "\<exists>fx. loop_body w ev = (Continue, fst (deliver (sig_in_run ev) w), fx)
           \<and> calls fx = 1 \<and> errors_logged fx = 1 \<and> pauses fx = 0"
proof -
  from assms obtain e where e: "result ev = Raises e" "e \<noteq> TimeoutException" "is_Exception e"
    and o: "\<not> overruns w ev"
    by (cases "result ev") (auto simp: failing_def)
  from guarded_run_shape[of w ev] o e obtain fx where
    g: "guarded_run w ev = (Raises e, fst (deliver (sig_in_run ev) w), fx)"
    and c: "calls fx = 1" "errors_logged fx = 0" "pauses fx = 0" by auto
  have "loop_body w ev = (Continue, fst (deliver (sig_in_run ev) w), fx @ [LogException e])"
    using g e by (simp add: loop_body_def)
  with c show ?thesis by (simp add: calls_append errors_append pauses_append)
qed

lemma failing_deliver [simp]: "failing (fst (deliver b w)) ev = failing w ev"
  by (simp add: failing_def overruns_def deliver_def signal_handler_def)

lemma run_failing:
  assumes "\<forall>ev\<in>set evs. failing w ev"
  shows "\<exists>n. count (res_worker (Worker__run w evs tr)) = count w
           \<and> calls (res_trace (Worker__run w evs tr)) = calls tr + n
           \<and> errors_logged (res_trace (Worker__run w evs tr)) = errors_logged tr + n
           \<and> (\<forall>e w' t. Worker__run w evs tr \<noteq> Raised e w' t)"
  using assms
proof (induction evs arbitrary: w tr)
  case Nil
  show ?case by simp
next
  case (Cons ev evs)
  show ?case
  proof (cases "loop_cond w")
    case False
    then show ?thesis by simp
  next
    case True
    let ?w = "fst (deliver (sig_in_run ev) w)"
    from Cons.prems have "failing w ev" by simp
    from loop_body_failing[OF this] obtain fx where
      b: "loop_body w ev = (Continue, ?w, fx)" and c: "calls fx = 1" "errors_logged fx = 1"
      by blast
    from Cons.prems have "\<forall>ev\<in>set evs. failing ?w ev" by simp
    from Cons.IH[OF this, of "tr @ fx"] obtain n where
      n: "count (res_worker (Worker__run ?w evs (tr @ fx))) = count ?w"
         "calls (res_trace (Worker__run ?w evs (tr @ fx))) = calls (tr @ fx) + n"
         "errors_logged (res_trace (Worker__run ?w evs (tr @ fx))) = errors_logged (tr @ fx) + n"
         "\<forall>e w' t. Worker__run ?w evs (tr @ fx) \<noteq> Raised e w' t"
      by blast
    have r: "Worker__run w (ev # evs) tr = Worker__run ?w evs (tr @ fx)"
      using True b by simp
    show ?thesis
      unfolding r using n c
      by (intro exI[of _ "Suc n"]) (simp add: calls_append errors_append)
  qed
qed

lemma run_failing_quiet:
  assumes "\<forall>ev\<in>set evs. failing w ev \<and> quiet ev" and "loop_cond w"
  shows "\<exists>t. Worker__run w evs tr = Unfinished w t \<and> calls t = calls tr + length evs"
  using assms
proof (induction evs arbitrary: tr)
  case Nil
  then show ?case by simp
next
  case (Cons ev evs)
  then have f: "failing w ev" and q: "\<not> sig_in_run ev" by (auto simp: quiet_def)
  from loop_body_failing[OF f] q obtain fx where
    b: "loop_body w ev = (Continue, w, fx)" and c: "calls fx = 1"
    by (auto simp: deliver_def)
  from Cons.prems have "\<forall>ev\<in>set evs. failing w ev \<and> quiet ev" by simp
  from Cons.IH[OF this Cons.prems(2), of "tr @ fx"] obtain t where
    "Worker__run w evs (tr @ fx) = Unfinished w t" "calls t = calls (tr @ fx) + length evs"
    by blast
  with b c Cons.prems(2) show ?case by (simp add: calls_append)
qed

text \<open>
  C7. The unit of work ends every call in an error (an exception that
  \<^verbatim>\<open>except Exception\<close> catches, other than the timeout), and the worker starts with
  \<open>count = 0\<close>. Then, however many passes the loop makes: \<open>count\<close> is still 0; as many
  exceptions have been logged as calls were made; no exception leaves the loop; if the
  loop has returned, then the bound was reached or \<open>is_exit\<close> holds the timeout or the
  signal tag; and if the loop was entered and no signal is delivered, then the loop has
  not returned at the end of the script, having made one call per event.
\<close>

theorem C7_failing_unit_of_work:
  assumes "\<forall>ev\<in>set evs. failing w ev" and "count w = 0"
  shows "count (res_worker (Worker__run w evs [])) = 0
       \<and> errors_logged (res_trace (Worker__run w evs [])) = calls (res_trace (Worker__run w evs []))
       \<and> (\<forall>e w' t. Worker__run w evs [] \<noteq> Raised e w' t)
       \<and> (\<forall>w' t. Worker__run w evs [] = Finished w' t \<longrightarrow>
             bound_reached w' \<or> is_exit w' = Some Timeout \<or> is_exit w' = Some Signal)
       \<and> (loop_cond w \<and> (\<forall>ev\<in>set evs. quiet ev) \<longrightarrow>
             (\<exists>t. Worker__run w evs [] = Unfinished w t \<and> calls t = length evs))"
proof -
  from run_failing[OF assms(1), of "[]"] assms(2)
  have a: "count (res_worker (Worker__run w evs [])) = 0"
    "errors_logged (res_trace (Worker__run w evs [])) = calls (res_trace (Worker__run w evs []))"
    "\<forall>e w' t. Worker__run w evs [] \<noteq> Raised e w' t"
    by auto
  have b: "bound_reached w' \<or> is_exit w' = Some Timeout \<or> is_exit w' = Some Signal"
    if "Worker__run w evs [] = Finished w' t" for w' t
  proof -
    from finished_not_cond[OF that] have "\<not> loop_cond w'" .
    then show ?thesis
      by (cases "is_exit w'"; cases "max_requests w'")
         (auto simp: loop_cond_def bound_reached_def intro: exit_tag.exhaust)
  qed
  have c: "\<exists>t. Worker__run w evs [] = Unfinished w t \<and> calls t = length evs"
    if "loop_cond w" "\<forall>ev\<in>set evs. quiet ev"
    using run_failing_quiet[of evs w "[]"] that assms(1) by simp
  from a b c show ?thesis by blast
qed

theorem C7_witness:
  "failing (fst (Worker_init 1 (Some 3) 200 300 None None None)) failing_event
   \<and> quiet failing_event
   \<and> loop_cond (fst (Worker_init 1 (Some 3) 200 300 None None None))
   \<and> count (fst (Worker_init 1 (Some 3) 200 300 None None None)) = 0
   \<and> count (res_worker (Worker__run (fst (Worker_init 1 (Some 3) 200 300 None None None))
               [failing_event, failing_event, failing_event, failing_event] [])) = 0
   \<and> (\<exists>t. Worker__run (fst (Worker_init 1 (Some 3) 200 300 None None None))
               [failing_event, failing_event, failing_event, failing_event] []
             = Unfinished (fst (Worker_init 1 (Some 3) 200 300 None None None)) t
           \<and> calls t = length [failing_event, failing_event, failing_event, failing_event])"
proof -
  let ?w = "fst (Worker_init 1 (Some 3) 200 300 None None None)"
  let ?evs = "[failing_event, failing_event, failing_event, failing_event]"
  have h1: "\<forall>ev\<in>set ?evs. failing ?w ev"
    by (simp add: Worker_init_def failing_event_def default_event_def failing_def overruns_def)
  have h2: "count ?w = 0" by (simp add: Worker_init_def)
  have h3: "loop_cond ?w" by (simp add: Worker_init_def loop_cond_def)
  have h4: "\<forall>ev\<in>set ?evs. quiet ev"
    by (simp add: failing_event_def default_event_def quiet_def)
  have h5: "failing ?w failing_event" "quiet failing_event" using h1 h4 by simp_all
  from C7_failing_unit_of_work[OF h1 h2] h2 h3 h4 h5 show ?thesis by blast
qed

subsection \<open>A bound that is not set\<close>

lemma loop_body_harmless:
  assumes "harmless w ev"
  shows "\<exists>w' fx. loop_body w ev = (Continue, w', fx) \<and> is_exit w' = is_exit w
           \<and> max_requests w' = max_requests w \<and> timeout w' = timeout w \<and> calls fx = 1"
proof -
  from assms have o: "\<not> overruns w ev" and q: "\<not> sig_in_run ev" "\<not> sig_in_pause ev"
    and bn: "benign (result ev)"
    by (auto simp: harmless_def quiet_def)
  from guarded_run_shape[of w ev] o q obtain fx where
    g: "guarded_run w ev = (result ev, w, fx)" and c: "calls fx = 1"
    by (auto simp: deliver_def)
  show ?thesis
  proof (cases "result ev")
    case (Returns r)
    with g c q show ?thesis
      by (auto simp: loop_body_def deliver_def Let_def calls_append)
  next
    case (Raises e)
    with g c bn show ?thesis
      by (auto simp: loop_body_def calls_append)
  qed
qed

lemma harmless_cong:
  "timeout w' = timeout w \<Longrightarrow> harmless w' ev = harmless w ev"
  by (simp add: harmless_def overruns_def)

lemma run_unbounded:
  assumes "\<not> truthy (max_requests w)" and "is_exit w = None"
    and "\<forall>ev\<in>set evs. harmless w ev"
  shows "\<exists>w' t. Worker__run w evs tr = Unfinished w' t \<and> calls t = calls tr + length evs"
  using assms
proof (induction evs arbitrary: w tr)
  case Nil
  then show ?case by (simp add: loop_cond_def)
next
  case (Cons ev evs)
  from Cons.prems have cond: "loop_cond w" by (simp add: loop_cond_def)
  from Cons.prems have "harmless w ev" by simp
  from loop_body_harmless[OF this] obtain w1 fx where
    b: "loop_body w ev = (Continue, w1, fx)" and i: "is_exit w1 = is_exit w"
    and m: "max_requests w1 = max_requests w" and tm: "timeout w1 = timeout w"
    and c: "calls fx = 1" by blast
  have "\<forall>ev\<in>set evs. harmless w1 ev"
    using Cons.prems(3) harmless_cong[OF tm] by simp
  with Cons.IH[of w1 "tr @ fx"] Cons.prems(1,2) i m obtain w' t where
    "Worker__run w1 evs (tr @ fx) = Unfinished w' t" "calls t = calls (tr @ fx) + length evs"
    by auto
  with cond b c show ?case by (simp add: calls_append)
qed

text \<open>
  C9. A worker whose \<open>max_requests\<close> is false in Python's sense (\<^verbatim>\<open>None\<close> or 0) has no
  bound: for every value of \<open>count\<close> the loop condition holds exactly when \<open>is_exit\<close> is
  not set; on a script of passes with no overrun, no signal and no escaping exception the
  loop makes one call per event and has not returned at the end of the script; and
  whenever the loop returns, \<open>is_exit\<close> holds the timeout or the signal tag.
\<close>

theorem C9_falsy_bound_is_unbounded:
  assumes "\<not> truthy (max_requests w)"
  shows "(\<forall>c. loop_cond (w\<lparr>count := c\<rparr>) = (is_exit w = None))
       \<and> (is_exit w = None \<and> (\<forall>ev\<in>set evs. harmless w ev) \<longrightarrow>
             (\<exists>w' t. Worker__run w evs [] = Unfinished w' t \<and> calls t = length evs))
       \<and> (\<forall>w' t. Worker__run w evs [] = Finished w' t \<longrightarrow>
             is_exit w' = Some Timeout \<or> is_exit w' = Some Signal)"
proof -
  have a: "\<forall>c. loop_cond (w\<lparr>count := c\<rparr>) = (is_exit w = None)"
    using assms by (simp add: loop_cond_def)
  have b: "\<exists>w' t. Worker__run w evs [] = Unfinished w' t \<and> calls t = length evs"
    if "is_exit w = None" "\<forall>ev\<in>set evs. harmless w ev"
    using run_unbounded[OF assms that, of "[]"] by simp
  have c: "is_exit w' = Some Timeout \<or> is_exit w' = Some Signal"
    if "Worker__run w evs [] = Finished w' t" for w' t
  proof -
    from finished_not_cond[OF that] have n: "\<not> loop_cond w'" .
    from run_config[of w evs "[]"] that have "max_requests w' = max_requests w" by simp
    with assms n have "is_exit w' \<noteq> None" by (simp add: loop_cond_def)
    then show ?thesis by (cases "is_exit w'") (auto intro: exit_tag.exhaust)
  qed
  from a b c show ?thesis by blast
qed

theorem C9_witness:
  "\<not> truthy (max_requests (fst (Worker_init 1 (Some 0) 200 300 None None None)))
   \<and> (\<forall>c. loop_cond ((fst (Worker_init 1 (Some 0) 200 300 None None None))\<lparr>count := c\<rparr>))
   \<and> (\<exists>w' t. Worker__run (fst (Worker_init 1 (Some 0) 200 300 None None None))
                 [default_event, default_event, default_event] [] = Unfinished w' t
             \<and> calls t = length [default_event, default_event, default_event])"
proof -
  let ?w = "fst (Worker_init 1 (Some 0) 200 300 None None None)"
  let ?evs = "[default_event, default_event, default_event]"
  have h1: "\<not> truthy (max_requests ?w)" by (simp add: Worker_init_def)
  have h2: "is_exit ?w = None" by (simp add: Worker_init_def)
  have h3: "\<forall>ev\<in>set ?evs. harmless ?w ev"
    by (simp add: Worker_init_def default_event_def harmless_def overruns_def quiet_def)
  from C9_falsy_bound_is_unbounded[OF h1, of ?evs] h1 h2 h3 show ?thesis by blast
qed

subsection \<open>The pause between two calls\<close>

lemma prompt_retry_append:
  assumes "prompt_retry a" "prompt_retry b" "b \<noteq> [] \<Longrightarrow> starts_call (hd b)"
  shows "prompt_retry (a @ b)"
  using assms
proof (induction a rule: prompt_retry.induct)
  case 1
  then show ?case by simp
next
  case (2 x)
  then show ?case by (cases b) auto
next
  case (3 x y zs)
  then show ?case by simp
qed

lemma prompt_retry_no_error:
  "errors_logged xs = 0 \<Longrightarrow> prompt_retry xs"
  by (induction xs rule: prompt_retry.induct) (auto split: if_splits)

lemma prompt_retry_snoc:
  "errors_logged xs = 0 \<Longrightarrow> prompt_retry (xs @ [x])"
  by (induction xs rule: prompt_retry.induct) (auto split: if_splits)

lemma guarded_run_head:
  "guarded_run w ev = (r, w1, fx) \<Longrightarrow> fx \<noteq> [] \<and> starts_call (hd fx) \<and> errors_logged fx = 0
      \<and> pauses fx = 0"
  by (cases "timeout w")
     (auto simp: guarded_run_def call_run_def deliver_def signal_handler_def
                 errors_append pauses_append
           split: prod.splits if_splits)

lemma loop_body_fx:
  assumes "loop_body w ev = (k, w', fx)"
  shows "fx \<noteq> [] \<and> starts_call (hd fx) \<and> prompt_retry fx"
proof -
  obtain r w1 fx1 where g: "guarded_run w ev = (r, w1, fx1)"
    by (cases "guarded_run w ev") auto
  from guarded_run_head[OF g] have h: "fx1 \<noteq> []" "starts_call (hd fx1)" "errors_logged fx1 = 0"
    by auto
  have "\<exists>s. fx = fx1 @ s \<and> (errors_logged s = 0 \<or> (\<exists>x. s = [x]))"
    using assms g
    by (auto simp: loop_body_def Let_def deliver_def signal_handler_def
             split: run_result.splits if_splits prod.splits)
  then obtain s where s: "fx = fx1 @ s" "errors_logged s = 0 \<or> (\<exists>x. s = [x])" by blast
  have "prompt_retry fx"
  proof (cases "errors_logged s = 0")
    case True
    with h s show ?thesis by (simp add: prompt_retry_no_error errors_append)
  next
    case False
    with s obtain x where "s = [x]" by blast
    with h s show ?thesis by (simp add: prompt_retry_snoc)
  qed
  with h s show ?thesis by simp
qed

lemma run_prompt_retry:
  "prompt_retry tr \<Longrightarrow> prompt_retry (res_trace (Worker__run w evs tr))"
proof (induction evs arbitrary: w tr)
  case Nil
  then show ?case by simp
next
  case (Cons ev evs)
  obtain k w1 fx where b: "loop_body w ev = (k, w1, fx)" by (cases "loop_body w ev") auto
  from loop_body_fx[OF b] Cons.prems have p: "prompt_retry (tr @ fx)"
    by (simp add: prompt_retry_append)
  show ?case
  proof (cases "loop_cond w")
    case False
    with Cons.prems show ?thesis by simp
  next
    case True
    show ?thesis
    proof (cases k)
      case Continue
      with True b have "Worker__run w (ev # evs) tr = Worker__run w1 evs (tr @ fx)" by simp
      with Cons.IH[OF p] show ?thesis by simp
    next
      case Return
      with True b p show ?thesis by simp
    next
      case (Propagate e)
      with True b p show ?thesis by simp
    qed
  qed
qed

lemma run_trace_prefix: "\<exists>t. res_trace (Worker__run w evs tr) = tr @ t"
proof (induction evs arbitrary: w tr)
  case Nil
  show ?case by simp
next
  case (Cons ev evs)
  obtain k w1 fx where b: "loop_body w ev = (k, w1, fx)" by (cases "loop_body w ev") auto
  show ?case
  proof (cases "loop_cond w")
    case False
    then show ?thesis by simp
  next
    case True
    show ?thesis
    proof (cases k)
      case Continue
      with True b have r: "Worker__run w (ev # evs) tr = Worker__run w1 evs (tr @ fx)" by simp
      from Cons.IH[of w1 "tr @ fx"] obtain t where
        "res_trace (Worker__run w1 evs (tr @ fx)) = (tr @ fx) @ t" by blast
      with r show ?thesis by simp
    next
      case Return
      with True b show ?thesis by simp
    next
      case (Propagate e)
      with True b show ?thesis by simp
    qed
  qed
qed

lemma loop_body_begins_with_call:
  assumes "loop_body w ev = (k, w', fx)"
  shows "\<exists>s. fx = call_effects w ev @ s"
proof -
  obtain r w1 fx1 where g: "guarded_run w ev = (r, w1, fx1)"
    by (cases "guarded_run w ev") auto
  then have c: "call_effects w ev = fx1" by (simp add: call_effects_def)
  show ?thesis
    using assms g unfolding c
    by (auto simp: loop_body_def Let_def deliver_def signal_handler_def
             split: run_result.splits if_splits prod.splits)
qed

lemma call_effects_cong:
  "timeout w' = timeout w \<Longrightarrow> call_effects w' ev = call_effects w ev"
  by (simp add: call_effects_def guarded_run_def call_run_def deliver_def signal_handler_def
           split: prod.splits)

lemma call_effects_shape:
  "calls (call_effects w ev) = 1 \<and> pauses (call_effects w ev) = 0
     \<and> errors_logged (call_effects w ev) = 0 \<and> starts_call (hd (call_effects w ev))"
proof -
  obtain r w1 fx1 where g: "guarded_run w ev = (r, w1, fx1)"
    by (cases "guarded_run w ev") auto
  from guarded_run_head[OF g] guarded_run_shape[of w ev] g show ?thesis
    by (auto simp: call_effects_def)
qed

lemma next_call_follows:
  assumes "loop_cond w" and "loop_body w ev = (Continue, w', fx)" and "loop_cond w'"
  shows "\<exists>t. res_trace (Worker__run w (ev # ev' # evs) tr) = tr @ fx @ call_effects w ev' @ t"
proof -
  have r: "Worker__run w (ev # ev' # evs) tr = Worker__run w' (ev' # evs) (tr @ fx)"
    using assms(1,2) by simp
  obtain k2 w2 fx2 where b: "loop_body w' ev' = (k2, w2, fx2)"
    by (cases "loop_body w' ev'") auto
  from loop_body_config[OF assms(2)] have "timeout w' = timeout w" by simp
  with loop_body_begins_with_call[OF b] call_effects_cong[of w' w ev']
  obtain s where s: "fx2 = call_effects w ev' @ s" by auto
  show ?thesis
  proof (cases k2)
    case Continue
    with assms(3) b have
      "Worker__run w' (ev' # evs) (tr @ fx) = Worker__run w2 evs ((tr @ fx) @ fx2)" by simp
    moreover from run_trace_prefix[of w2 evs "(tr @ fx) @ fx2"] obtain t where
      "res_trace (Worker__run w2 evs ((tr @ fx) @ fx2)) = ((tr @ fx) @ fx2) @ t" by blast
    ultimately show ?thesis using r s by simp
  next
    case Return
    with assms(3) b r s show ?thesis by simp
  next
    case (Propagate e)
    with assms(3) b r s show ?thesis by simp
  qed
qed

text \<open>
  C10. With \<open>check_point\<close> set to \<open>c > 0\<close>, in one pass of the loop: if the call returns,
  the pass sleeps \<open>c\<close> seconds, once, and the loop goes on; if the call raises, the pass
  does not sleep; if it raises an error (not the timeout), the loop goes on and the pass
  consists of the call followed by the logging of the exception, and of nothing else. In
  the trace of any run of the loop, what follows a logged exception is the beginning of a
  call. And whenever a pass ends with the loop going on and its condition still true, the
  loop makes the next call: in the trace, the effects of the next call of the unit of work
  come directly after those of the pass, so that after an error the next call begins right
  after the logged exception, with no sleep between them.
\<close>

theorem C10_pause_only_after_return:
  assumes "check_point w = Some c" and "c \<noteq> 0" and "loop_body w ev = (k, w', fx)"
  shows "(\<forall>r. fst (guarded_run w ev) = Returns r \<longrightarrow>
             k = Continue \<and> pauses fx = 1 \<and> Sleep c \<in> set fx)
       \<and> (\<forall>e. fst (guarded_run w ev) = Raises e \<longrightarrow> pauses fx = 0)
       \<and> (\<forall>e. fst (guarded_run w ev) = Raises e \<and> e \<noteq> TimeoutException \<and> is_Exception e \<longrightarrow>
             k = Continue \<and> fx = call_effects w ev @ [LogException e])
       \<and> prompt_retry (res_trace (Worker__run w evs []))
       \<and> (k = Continue \<and> loop_cond w \<and> loop_cond w' \<longrightarrow>
             (\<exists>t. res_trace (Worker__run w (ev # ev' # evs) []) = fx @ call_effects w ev' @ t)
             \<and> calls (call_effects w ev') = 1
             \<and> pauses (call_effects w ev') = 0
             \<and> starts_call (hd (call_effects w ev')))"
proof -
  obtain r w1 fx1 where g: "guarded_run w ev = (r, w1, fx1)"
    by (cases "guarded_run w ev") auto
  then have ce: "call_effects w ev = fx1" by (simp add: call_effects_def)
  from guarded_run_head[OF g] have p: "pauses fx1 = 0" by simp
  from g have cp: "check_point w1 = check_point w"
    by (auto simp: guarded_run_def call_run_def deliver_def signal_handler_def
             split: prod.splits if_splits)
  have a: "k = Continue \<and> pauses fx = 1 \<and> Sleep c \<in> set fx" if "r = Returns b" for b
    using assms g p cp that
    by (auto simp: loop_body_def Let_def deliver_def signal_handler_def pauses_append
             split: if_splits)
  have b: "pauses fx = 0" if "r = Raises e" for e
    using assms g p that
    by (auto simp: loop_body_def pauses_append split: if_splits)
  have c: "k = Continue \<and> fx = call_effects w ev @ [LogException e]"
    if "r = Raises e" "e \<noteq> TimeoutException" "is_Exception e" for e
    using assms g that unfolding ce by (auto simp: loop_body_def)
  have d: "prompt_retry (res_trace (Worker__run w evs []))"
    by (rule run_prompt_retry) simp
  have e: "\<exists>t. res_trace (Worker__run w (ev # ev' # evs) []) = fx @ call_effects w ev' @ t"
    if "k = Continue" "loop_cond w" "loop_cond w'"
    using next_call_follows[of w ev w' fx ev' evs "[]"] assms(3) that by simp
  from a b c d e g call_effects_shape[of w ev'] show ?thesis by simp
qed

theorem C10_witness:
  "check_point pausing_worker = Some 3 \<and> (3::nat) \<noteq> 0
   \<and> loop_body pausing_worker failing_event
       = (Continue, pausing_worker, [CallRun, LogException UserError])
   \<and> fst (guarded_run pausing_worker failing_event) = Raises UserError
   \<and> loop_cond pausing_worker
   \<and> pauses [CallRun, LogException UserError] = 0
   \<and> [CallRun, LogException UserError]
        = call_effects pausing_worker failing_event @ [LogException UserError]
   \<and> (\<exists>t. res_trace (Worker__run pausing_worker [failing_event, default_event] [])
             = [CallRun, LogException UserError] @ call_effects pausing_worker default_event @ t)
   \<and> call_effects pausing_worker default_event = [CallRun]"
proof -
  have h1: "check_point pausing_worker = Some 3" by (simp add: pausing_worker_def Worker_init_def)
  have h2: "(3::nat) \<noteq> 0" by simp
  have h3: "loop_body pausing_worker failing_event
              = (Continue, pausing_worker, [CallRun, LogException UserError])"
    by (simp add: loop_body_def guarded_run_def call_run_def deliver_def pausing_worker_def
                  Worker_init_def failing_event_def default_event_def)
  have h4: "fst (guarded_run pausing_worker failing_event) = Raises UserError"
    by (simp add: guarded_run_def call_run_def deliver_def pausing_worker_def
                  Worker_init_def failing_event_def default_event_def)
  have h5: "loop_cond pausing_worker"
    by (simp add: loop_cond_def pausing_worker_def Worker_init_def)
  have h6: "call_effects pausing_worker default_event = [CallRun]"
    by (simp add: call_effects_def guarded_run_def call_run_def deliver_def pausing_worker_def
                  Worker_init_def default_event_def)
  from C10_pause_only_after_return[OF h1 h2 h3, of "[]" default_event] h4 h5
  have "pauses [CallRun, LogException UserError] = 0
      \<and> [CallRun, LogException UserError]
           = call_effects pausing_worker failing_event @ [LogException UserError]
      \<and> (\<exists>t. res_trace (Worker__run pausing_worker [failing_event, default_event] [])
             = [CallRun, LogException UserError] @ call_effects pausing_worker default_event @ t)"
    by simp
  with h1 h2 h3 h4 h5 h6 show ?thesis by blast
qed

section \<open>Properties of the manager\<close>

subsection \<open>Reading the memory of a child\<close>

lemma get_memory_running:
  "os pid = Some (Running r) \<Longrightarrow> get_memory os pid = (Inr (MB r), os, [Waitpid pid])"
  by (simp add: get_memory_def waitpid_nohang_def memory_info_rss_def MB_def)

lemma get_memory_zombie:
  "os pid = Some Zombie \<Longrightarrow> pid \<noteq> 0 \<Longrightarrow> get_memory os pid = (Inr 0, os(pid := None), [Waitpid pid])"
  by (simp add: get_memory_def waitpid_nohang_def)



subsection \<open>One slot in one pass\<close>

lemma needs_create_present:
  "pids st i = Some pid \<Longrightarrow> pid \<noteq> 0 \<Longrightarrow> procs st pid = Some p \<Longrightarrow> needs_create st i = (False, [])"
  by (simp add: needs_create_def pid_exists_def)

lemma needs_create_absent:
  "pids st i = Some pid \<Longrightarrow> pid \<noteq> 0 \<Longrightarrow> procs st pid = None
     \<Longrightarrow> needs_create st i = (True, [LogInfo (Not_existed_any_more pid)])"
  by (simp add: needs_create_def pid_exists_def)

lemma kill_child_absent: "os pid = None \<Longrightarrow> kill_child os pid sig = (os, [])"
  by (simp add: kill_child_def pid_exists_def)

subsection \<open>A pid that is not a child of the manager\<close>





subsection \<open>A child that runs, and a zombie\<close>

text \<open>
  C3. For a slot with the pid of a child that runs, one visit of the slot reads the
  memory of the child once and then: at or above the hard limit it logs and sends
  \<^verbatim>\<open>SIGKILL\<close>; otherwise at or above the soft limit it sends \<^verbatim>\<open>SIGTERM\<close> and logs;
  otherwise it does nothing more. It does not fork, and the slot keeps its pid.
\<close>

theorem C3_memory_thresholds:
  assumes "pids st i = Some pid" and "pid \<noteq> 0" and "procs st pid = Some (Running rss)"
  shows "check_worker fo i w st =
           Done (st\<lparr>procs := (if MB rss \<ge> hard_memory_limit w then (procs st)(pid \<mapsto> Zombie)
                              else procs st),
                    trace := trace st @ [Waitpid pid] @
                      (if MB rss \<ge> hard_memory_limit w
                       then [LogInfo (Reaches_hard_memory_limit pid), Kill pid SIGKILL]
                       else if MB rss \<ge> soft_memory_limit w
                       then [Kill pid SIGTERM, LogInfo (Reaches_soft_memory_limit pid)]
                       else [])\<rparr>)"
  using assms needs_create_present[OF assms] get_memory_running[of "procs st" pid rss]
  by (simp add: check_worker_def inspect_def reached_hard_memory_limit_def
                reached_soft_memory_limit_def kill_child_def pid_exists_def os_kill_def)

theorem C3_witness:
  "pids (live_state (250 * 1024 * 1024)) 0 = Some 7 \<and> (7::int) \<noteq> 0
   \<and> procs (live_state (250 * 1024 * 1024)) 7 = Some (Running (250 * 1024 * 1024))
   \<and> check_worker ForkFails 0 default_worker (live_state (250 * 1024 * 1024)) =
        Done ((live_state (250 * 1024 * 1024))
                \<lparr>procs := procs (live_state (250 * 1024 * 1024)),
                 trace := [Waitpid 7, Kill 7 SIGTERM, LogInfo (Reaches_soft_memory_limit 7)]\<rparr>)"
proof -
  let ?st = "live_state (250 * 1024 * 1024)"
  have h1: "pids ?st 0 = Some 7" by (simp add: live_state_def)
  have h2: "(7::int) \<noteq> 0" by simp
  have h3: "procs ?st 7 = Some (Running (250 * 1024 * 1024))" by (simp add: live_state_def)
  have m: "MB (250 * 1024 * 1024) = 250" by (simp add: MB_def)
  have l: "hard_memory_limit default_worker = 300" "soft_memory_limit default_worker = 200"
    by (simp_all add: default_worker_def Worker_init_def)
  have t: "trace ?st = []" by (simp add: live_state_def)
  from C3_memory_thresholds[OF h1 h2 h3, of ForkFails default_worker]
  have "check_worker ForkFails 0 default_worker ?st =
        Done (?st\<lparr>procs := procs ?st,
                 trace := [Waitpid 7, Kill 7 SIGTERM, LogInfo (Reaches_soft_memory_limit 7)]\<rparr>)"
    unfolding m l t by simp
  with h1 h2 h3 show ?thesis by blast
qed

lemma check_worker_zombie:
  assumes "pids st i = Some pid" and "pid \<noteq> 0" and "procs st pid = Some Zombie"
  shows "check_worker fo i w st =
           Done (st\<lparr>procs := (procs st)(pid := None),
                    trace := trace st @ [Waitpid pid] @ zombie_lines w pid\<rparr>)"
  using assms needs_create_present[OF assms] get_memory_zombie[of "procs st" pid]
        kill_child_absent[of "(procs st)(pid := None)" pid]
  by (simp add: check_worker_def inspect_def reached_hard_memory_limit_def
                reached_soft_memory_limit_def zombie_lines_def)

lemma check_worker_respawn:
  assumes "pids st i = Some pid" and "pid \<noteq> 0" and "procs st pid = None" and "p \<noteq> 0"
  shows "check_worker (InParent p r) i w st =
           Done (st\<lparr>pids := (pids st)(i \<mapsto> p), procs := (procs st)(p \<mapsto> Running r),
                    trace := trace st @ [LogInfo (Not_existed_any_more pid), Fork]\<rparr>)"
  using assms needs_create_absent[OF assms(1-3)]
  by (simp add: check_worker_def spawn_def os_fork_def)

text \<open>
  C5, as the code has it. The decision to give a slot a new process asks
  \<^verbatim>\<open>psutil.pid_exists\<close> only, and a zombie exists: on the visit that finds the child a
  zombie the slot is not respawned. The visit goes on to \<open>get_memory\<close>, whose
  \<^verbatim>\<open>os.waitpid\<close> reaps the zombie and reads its memory as 0, so no signal is sent. At
  the next visit the pid does not exist any more, and the slot gets a new process.
\<close>

theorem C5_zombie_is_reaped_after_the_liveness_check:
  assumes "pids st i = Some pid" and "pid \<noteq> 0" and "procs st pid = Some Zombie"
    and "p \<noteq> 0"
  shows "needs_create st i = (False, [])
       \<and> (\<exists>st'. check_worker fo i w st = Done st'
              \<and> pids st' = pids st
              \<and> procs st' = (procs st)(pid := None)
              \<and> trace st' = trace st @ [Waitpid pid] @ zombie_lines w pid
              \<and> needs_create st' i = (True, [LogInfo (Not_existed_any_more pid)])
              \<and> (\<exists>st''. check_worker (InParent p r) i w st' = Done st''
                     \<and> pids st'' i = Some p
                     \<and> trace st'' = trace st' @ [LogInfo (Not_existed_any_more pid), Fork]))"
proof -
  let ?st = "st\<lparr>procs := (procs st)(pid := None),
                 trace := trace st @ [Waitpid pid] @ zombie_lines w pid\<rparr>"
  have a: "needs_create st i = (False, [])"
    using needs_create_present[OF assms(1-3)] .
  have b: "check_worker fo i w st = Done ?st"
    using check_worker_zombie[OF assms(1-3)] .
  have h: "pids ?st i = Some pid" "procs ?st pid = None" using assms(1) by simp_all
  have c: "needs_create ?st i = (True, [LogInfo (Not_existed_any_more pid)])"
    using needs_create_absent[OF h(1) assms(2) h(2)] .
  have d: "check_worker (InParent p r) i w ?st =
             Done (?st\<lparr>pids := (pids ?st)(i \<mapsto> p), procs := (procs ?st)(p \<mapsto> Running r),
                      trace := trace ?st @ [LogInfo (Not_existed_any_more pid), Fork]\<rparr>)"
    using check_worker_respawn[OF h(1) assms(2) h(2) assms(4)] .
  show ?thesis using a b c d by simp
qed

theorem C5_witness:
  "pids zombie_state 0 = Some 7 \<and> (7::int) \<noteq> 0 \<and> procs zombie_state 7 = Some Zombie
   \<and> (8::int) \<noteq> 0
   \<and> needs_create zombie_state 0 = (False, [])
   \<and> (\<exists>st'. check_worker ForkFails 0 default_worker zombie_state = Done st'
          \<and> pids st' = pids zombie_state
          \<and> procs st' = (procs zombie_state)(7 := None)
          \<and> trace st' = trace zombie_state @ [Waitpid 7] @ zombie_lines default_worker 7
          \<and> needs_create st' 0 = (True, [LogInfo (Not_existed_any_more 7)])
          \<and> (\<exists>st''. check_worker (InParent 8 0) 0 default_worker st' = Done st''
                 \<and> pids st'' 0 = Some 8
                 \<and> trace st'' = trace st' @ [LogInfo (Not_existed_any_more 7), Fork]))"
proof -
  have h1: "pids zombie_state 0 = Some 7" by (simp add: zombie_state_def)
  have h2: "(7::int) \<noteq> 0" by simp
  have h3: "procs zombie_state 7 = Some Zombie" by (simp add: zombie_state_def)
  have h4: "(8::int) \<noteq> 0" by simp
  from C5_zombie_is_reaped_after_the_liveness_check[OF h1 h2 h3 h4, of ForkFails default_worker 0]
       h1 h2 h3 h4
  show ?thesis by blast
qed

text \<open>
  C5 as stated fails: with a zombie in slot 0, the check reports no need for a new
  process, and the visit ends without a fork and with the old pid in the slot.
\<close>

theorem C5_counterexample:
  "fst (needs_create zombie_state 0) = False
   \<and> check_worker (InParent 8 0) 0 default_worker zombie_state = Done zombie_expected
   \<and> pids zombie_expected 0 = Some 7
   \<and> Fork \<notin> set (trace zombie_expected)"
  by (simp add: needs_create_def pid_exists_def zombie_state_def zombie_expected_def
                check_worker_def inspect_def get_memory_def waitpid_nohang_def
                reached_hard_memory_limit_def reached_soft_memory_limit_def
                default_worker_def Worker_init_def kill_child_def)

subsection \<open>A fork that is refused\<close>

text \<open>
  C2 does not hold of the code: \<^verbatim>\<open>os.fork()\<close> is called outside any \<^verbatim>\<open>try\<close> that
  catches \<^verbatim>\<open>OSError\<close>. A manager with one worker, whose first fork is refused, leaves
  \<open>run\<close> with that \<^verbatim>\<open>OSError\<close>: nothing is logged for it and the second pass, in
  which the fork would succeed, is never made.
\<close>

theorem C2_fork_failure_ends_the_manager:
  "launch [default_worker] None 10 ''Workers Daemon'' 3 Map.empty [no_fork_pass, fork_pass]
     = Fail OSError \<lparr> exiting = False, pids = Map.empty, procs = Map.empty,
                      trace = [LogInfo Daemon_starting, Fork] \<rparr>"
  by (simp add: launch_def Manager_init_def Manager_start_def Manager_run_def
                default_worker_def Worker_init_def no_fork_pass_def
                check_worker_def needs_create_def spawn_def os_fork_def)

subsection \<open>A manager with no workers\<close>

text \<open>
  C8. Constructing and starting a manager with an empty list of workers never reaches
  the polling loop, whatever the other arguments: the constructor leaves with
  \<^verbatim>\<open>SystemExit(0)\<close> after logging, or, when \<open>log\<close> is \<^verbatim>\<open>None\<close>, with the
  \<^verbatim>\<open>AttributeError\<close> of \<^verbatim>\<open>None.info\<close>; the trace holds no fork and no sleep.
\<close>

theorem C8_no_workers_is_fatal:
  "launch [] lg cp ttl wt os ps =
     Fail (if lg = None then AttributeError else SystemExit 0)
          \<lparr> exiting = False, pids = Map.empty, procs = os,
            trace = (if lg = None then [] else [LogInfo No_workers_need_to_run]) \<rparr>"
  by (cases lg) (simp_all add: launch_def Manager_init_def)

end
